theory Spec2Isabelle
  imports Complex_Main "HOL-Library.Sublist" "HOL-Library.AList"
begin

section \<open>The admin service of the RAG repository: data model\<close>

text \<open>
  The program is one Flask module, \<^verbatim>\<open>admin_app.py\<close>. It keeps three MongoDB
  collections (\<^verbatim>\<open>documents\<close>, \<^verbatim>\<open>stateboard\<close>, \<^verbatim>\<open>cbse\<close>) and one Pinecone index.
  A MongoDB document is a Python dict; it is modelled as an association list from field
  names to values, in insertion order. A character of a \<^typ>\<open>string\<close> stands for one
  code point of a Python \<^verbatim>\<open>str\<close>. The store's own \<^verbatim>\<open>_id\<close> field is left out: every
  read of the program projects it away (\<^verbatim>\<open>{"_id": 0}\<close>) and no query of the modelled
  routes uses it.
\<close>

datatype val = Null | Str string | Num int | Time nat

type_synonym doc = "(string \<times> val) list"

text \<open>A record of the vector index: \<^verbatim>\<open>{"id", "values", "metadata": {"text", "document_id"}}\<close>.
  The type of the embedding vector is a parameter: the model is the black box
  \<^verbatim>\<open>embedder.encode\<close>.\<close>

record 'v vector_record =
  vec_id :: string
  vec_values :: 'v
  meta_text :: string
  meta_document_id :: string

text \<open>The state of the service: the three collections, the index, and the trace of the
  texts handed to \<^verbatim>\<open>embedder.encode\<close>, oldest first.\<close>

record 'v stores =
  documents_col :: "doc list"
  stateboard_col :: "doc list"
  cbse_col :: "doc list"
  index :: "'v vector_record list"
  encoded :: "string list"

datatype py_error = ValueError | KeyError

text \<open>A response: the HTTP status and the JSON body, an object or a list of documents.\<close>

datatype body = Obj doc | Docs "doc list"

type_synonym response = "nat \<times> body"

subsection \<open>Python built-ins used by the program\<close>

text \<open>\<^verbatim>\<open>xs[start:stop]\<close>: a negative bound counts from the end, and both bounds are
  clipped to the sequence.\<close>

definition slice_index :: "nat \<Rightarrow> int \<Rightarrow> nat" where
  "slice_index n i = (if i < 0 then nat (max (i + int n) 0) else min (nat i) n)"

definition py_slice :: "'a list \<Rightarrow> int \<Rightarrow> int \<Rightarrow> 'a list" where
  "py_slice xs start stop =
     (let lo = slice_index (length xs) start; hi = slice_index (length xs) stop
      in take (hi - lo) (drop lo xs))"

text \<open>\<^verbatim>\<open>str(i)\<close> for the non-negative index of \<^verbatim>\<open>enumerate\<close>.\<close>

fun str_nat :: "nat \<Rightarrow> string" where
  "str_nat n =
     (if n < 10 then [''0123456789'' ! n]
      else str_nat (n div 10) @ [''0123456789'' ! (n mod 10)])"

text \<open>Truthiness of the result of \<^verbatim>\<open>request.args.get\<close>: \<^verbatim>\<open>None\<close> and the empty string
  are false.\<close>

definition truthy :: "string option \<Rightarrow> bool" where
  "truthy a = (case a of None \<Rightarrow> False | Some s \<Rightarrow> s \<noteq> [])"

text \<open>A form or query value as it is stored: \<^verbatim>\<open>None\<close> becomes null.\<close>

definition to_val :: "string option \<Rightarrow> val" where
  "to_val a = (case a of None \<Rightarrow> Null | Some s \<Rightarrow> Str s)"

text \<open>\<^verbatim>\<open>os.path.join("uploads", name)\<close> on POSIX.\<close>

definition path_join :: "string \<Rightarrow> string \<Rightarrow> string" where
  "path_join dir name =
     (if prefix ''/'' name then name
      else if dir = [] \<or> suffix ''/'' dir then dir @ name
      else dir @ ''/'' @ name)"

subsection \<open>The MongoDB operations the program calls\<close>

text \<open>An equality filter \<^verbatim>\<open>{k: v}\<close> holds of a document whose field \<open>k\<close> is \<open>v\<close>; a filter
  on null also holds where the field is missing. A query is the conjunction of its
  filters. (Array-valued fields do not occur.)\<close>

definition field_is :: "doc \<Rightarrow> string \<Rightarrow> val \<Rightarrow> bool" where
  "field_is d k v = (case map_of d k of None \<Rightarrow> v = Null | Some w \<Rightarrow> w = v)"

definition matches :: "doc \<Rightarrow> doc \<Rightarrow> bool" where
  "matches query d = list_all (\<lambda>(k, v). field_is d k v) query"

definition find_col :: "doc list \<Rightarrow> doc \<Rightarrow> doc list" where
  "find_col col query = filter (matches query) col"

text \<open>\<^verbatim>\<open>{k: {"$in": vs}}\<close>.\<close>

definition find_in :: "doc list \<Rightarrow> string \<Rightarrow> val list \<Rightarrow> doc list" where
  "find_in col k vs = filter (\<lambda>d. \<exists>v \<in> set vs. field_is d k v) col"

text \<open>\<^verbatim>\<open>cursor.limit(n)\<close>: 0 is no limit, and a negative limit counts as its absolute
  value.\<close>

definition limit :: "int \<Rightarrow> doc list \<Rightarrow> doc list" where
  "limit n ds = (if n = 0 then ds else take (nat \<bar>n\<bar>) ds)"

definition insert_one :: "doc list \<Rightarrow> doc \<Rightarrow> doc list" where
  "insert_one col d = col @ [d]"

text \<open>\<^verbatim>\<open>{"$set": data}\<close> overwrites the fields that exist and appends the others.\<close>

definition set_fields :: "doc \<Rightarrow> doc \<Rightarrow> doc" where
  "set_fields data d = fold (\<lambda>(k, v). AList.update k v) data d"

fun update_one :: "doc list \<Rightarrow> doc \<Rightarrow> doc \<Rightarrow> doc list" where
  "update_one [] query data = []"
| "update_one (d # ds) query data =
     (if matches query d then set_fields data d # ds
      else d # update_one ds query data)"

fun delete_one :: "doc list \<Rightarrow> doc \<Rightarrow> doc list" where
  "delete_one [] query = []"
| "delete_one (d # ds) query =
     (if matches query d then ds else d # delete_one ds query)"

definition delete_many :: "doc list \<Rightarrow> doc \<Rightarrow> doc list" where
  "delete_many col query = filter (\<lambda>d. \<not> matches query d) col"

subsection \<open>The Pinecone operations the program calls\<close>

fun upsert_one :: "'v vector_record \<Rightarrow> 'v vector_record list \<Rightarrow> 'v vector_record list" where
  "upsert_one r [] = [r]"
| "upsert_one r (x # xs) =
     (if vec_id x = vec_id r then r # xs else x # upsert_one r xs)"

definition upsert :: "'v vector_record list \<Rightarrow> 'v vector_record list \<Rightarrow> 'v vector_record list" where
  "upsert idx vectors = fold upsert_one vectors idx"

text \<open>\<^verbatim>\<open>index.delete(filter={"document_id": {"$eq": document_id}})\<close>.\<close>

definition index_delete :: "'v vector_record list \<Rightarrow> string \<Rightarrow> 'v vector_record list" where
  "index_delete idx document_id = filter (\<lambda>r. meta_document_id r \<noteq> document_id) idx"

section \<open>Utilities\<close>

text \<open>An uploaded file, as the three readers of \<^verbatim>\<open>load_document\<close> see it: the text
  \<^verbatim>\<open>extract_text()\<close> gives for each page of the PDF (\<^verbatim>\<open>None\<close> for a page without
  text), the text of each paragraph of the Word document, and the decoded content.\<close>

record upload_file =
  filename :: string
  pdf_pages :: "string option list"
  docx_paragraphs :: "string list"
  txt_content :: string

definition load_document :: "string \<Rightarrow> upload_file \<Rightarrow> string" where
  "load_document file_path f =
     (if suffix ''.pdf'' file_path
      then concat (map (\<lambda>page. case page of None \<Rightarrow> [] | Some t \<Rightarrow> t) (pdf_pages f))
      else if suffix ''.docx'' file_path
      then concat (map (\<lambda>para. para @ [CHR 0x0A]) (docx_paragraphs f))
      else if suffix ''.txt'' file_path
      then txt_content f
      else [])"

text \<open>The loop of \<^verbatim>\<open>chunk_text\<close>; its state is \<open>start\<close> and \<open>chunks\<close>. The source has no
  check of its arguments, and the loop need not end: not returning is \<open>None\<close>.\<close>

partial_function (option) chunk_loop ::
  "string \<Rightarrow> int \<Rightarrow> int \<Rightarrow> int \<Rightarrow> string list \<Rightarrow> string list option" where
  "chunk_loop text chunk_size overlap start chunks =
     (if start < int (length text)
      then (let end_pos = start + chunk_size
            in chunk_loop text chunk_size overlap (end_pos - overlap)
                 (chunks @ [py_slice text start end_pos]))
      else Some chunks)"

declare chunk_loop.simps [code]

definition chunk_text :: "string \<Rightarrow> int \<Rightarrow> int \<Rightarrow> string list option" where
  "chunk_text text chunk_size overlap = chunk_loop text chunk_size overlap 0 []"

text \<open>\<^verbatim>\<open>get_embedding\<close> calls the model; the call is recorded in the trace.\<close>

definition get_embedding ::
  "(string \<Rightarrow> 'v) \<Rightarrow> string \<Rightarrow> 'v stores \<Rightarrow> 'v \<times> 'v stores" where
  "get_embedding embedder text s = (embedder text, s\<lparr>encoded := encoded s @ [text]\<rparr>)"

text \<open>The loop of \<^verbatim>\<open>store_chunks\<close> over \<^verbatim>\<open>enumerate(chunks)\<close>, from index \<open>i\<close> on.\<close>

fun build_vectors ::
  "(string \<Rightarrow> 'v) \<Rightarrow> string \<Rightarrow> nat \<Rightarrow> string list \<Rightarrow> 'v stores
     \<Rightarrow> 'v vector_record list \<times> 'v stores" where
  "build_vectors embedder document_id i [] s = ([], s)"
| "build_vectors embedder document_id i (chunk # rest) s =
     (let (values, s1) = get_embedding embedder chunk s;
          (vectors, s2) = build_vectors embedder document_id (Suc i) rest s1
      in (\<lparr>vec_id = document_id @ ''-'' @ str_nat i, vec_values = values,
           meta_text = chunk, meta_document_id = document_id\<rparr> # vectors, s2))"

definition store_chunks ::
  "(string \<Rightarrow> 'v) \<Rightarrow> string list \<Rightarrow> string \<Rightarrow> 'v stores \<Rightarrow> 'v stores" where
  "store_chunks embedder chunks document_id s =
     (let (vectors, s1) = build_vectors embedder document_id 0 chunks s
      in s1\<lparr>index := upsert (index s1) vectors\<rparr>)"

section \<open>Routes\<close>

text \<open>The request of \<^verbatim>\<open>/admin/upload\<close>: the file, if one was sent, and the form fields.
  The fresh \<^verbatim>\<open>uuid.uuid4()\<close> and the clock are inputs of the call.\<close>

record upload_request =
  files_file :: "upload_file option"
  form_class :: "string option"
  form_board :: "string option"
  form_subject :: "string option"
  form_group :: "string option"

record environment =
  uuid4 :: string
  utcnow :: nat

definition category_pointer :: "upload_request \<Rightarrow> string \<Rightarrow> doc" where
  "category_pointer req document_id =
     [(''class'', to_val (form_class req)),
      (''subject'', to_val (form_subject req)),
      (''group'', to_val (form_group req)),
      (''document_id'', Str document_id)]"

definition admin_upload ::
  "(string \<Rightarrow> 'v) \<Rightarrow> environment \<Rightarrow> upload_request \<Rightarrow> 'v stores
     \<Rightarrow> (response \<times> 'v stores) option" where
  "admin_upload embedder env req s =
     (case files_file req of
        None \<Rightarrow> Some ((400, Obj [(''error'', Str ''No file uploaded'')]), s)
      | Some f \<Rightarrow>
          (let path = path_join ''uploads'' (filename f);
               text = load_document path f
           in case chunk_text text 500 100 of
                None \<Rightarrow> None
              | Some chunks \<Rightarrow>
                  (let document_id = uuid4 env;
                       s1 = store_chunks embedder chunks document_id s;
                       s2 = s1\<lparr>documents_col := insert_one (documents_col s1)
                              [(''document_id'', Str document_id),
                               (''filename'', Str (filename f)),
                               (''class'', to_val (form_class req)),
                               (''board'', to_val (form_board req)),
                               (''subject'', to_val (form_subject req)),
                               (''group'', to_val (form_group req)),
                               (''uploaded_at'', Time (utcnow env))]\<rparr>;
                       pointer = category_pointer req document_id;
                       s3 = (if form_board req = Some ''stateboard''
                             then s2\<lparr>stateboard_col := insert_one (stateboard_col s2) pointer\<rparr>
                             else s2\<lparr>cbse_col := insert_one (cbse_col s2) pointer\<rparr>)
                   in Some ((200, Obj [(''message'', Str ''Document uploaded successfully''),
                                       (''document_id'', Str document_id)]), s3))))"

text \<open>The query string of the three listings. \<open>arg_limit\<close> is the parameter
  \<^verbatim>\<open>limit\<close> as \<^verbatim>\<open>int()\<close> reads it.\<close>

datatype limit_arg = LimitMissing | LimitInt int | LimitInvalid

record list_args =
  arg_board :: "string option"
  arg_class :: "string option"
  arg_subject :: "string option"
  arg_group :: "string option"
  arg_limit :: limit_arg

definition read_limit :: "limit_arg \<Rightarrow> py_error + int" where
  "read_limit a =
     (case a of LimitMissing \<Rightarrow> Inr 20 | LimitInt n \<Rightarrow> Inr n | LimitInvalid \<Rightarrow> Inl ValueError)"

definition add_filter :: "string \<Rightarrow> string option \<Rightarrow> doc \<Rightarrow> doc" where
  "add_filter k a query = (if truthy a then AList.update k (Str (the a)) query else query)"

definition get_documents :: "list_args \<Rightarrow> 'v stores \<Rightarrow> py_error + doc list" where
  "get_documents args s =
     (case read_limit (arg_limit args) of
        Inl e \<Rightarrow> Inl e
      | Inr n \<Rightarrow>
          (let query = add_filter ''subject'' (arg_subject args)
                         (add_filter ''class'' (arg_class args)
                           (add_filter ''board'' (arg_board args) []))
           in Inr (limit n (find_col (documents_col s) query))))"

text \<open>\<^verbatim>\<open>[doc["document_id"] for doc in docs]\<close>: a pointer without the field raises.\<close>

fun document_ids :: "doc list \<Rightarrow> py_error + val list" where
  "document_ids [] = Inr []"
| "document_ids (d # ds) =
     (case map_of d ''document_id'' of
        None \<Rightarrow> Inl KeyError
      | Some v \<Rightarrow> (case document_ids ds of Inl e \<Rightarrow> Inl e | Inr vs \<Rightarrow> Inr (v # vs)))"

definition get_partition_documents ::
  "doc list \<Rightarrow> list_args \<Rightarrow> 'v stores \<Rightarrow> py_error + doc list" where
  "get_partition_documents pointer_col args s =
     (case read_limit (arg_limit args) of
        Inl e \<Rightarrow> Inl e
      | Inr n \<Rightarrow>
          (let query = add_filter ''group'' (arg_group args)
                         (add_filter ''subject'' (arg_subject args)
                           (add_filter ''class'' (arg_class args) []));
               pointers = limit n (find_col pointer_col query)
           in case document_ids pointers of
                Inl e \<Rightarrow> Inl e
              | Inr ids \<Rightarrow> Inr (find_in (documents_col s) ''document_id'' ids)))"

definition get_stateboard_documents :: "list_args \<Rightarrow> 'v stores \<Rightarrow> py_error + doc list" where
  "get_stateboard_documents args s = get_partition_documents (stateboard_col s) args s"

definition get_cbse_documents :: "list_args \<Rightarrow> 'v stores \<Rightarrow> py_error + doc list" where
  "get_cbse_documents args s = get_partition_documents (cbse_col s) args s"

definition update_document :: "string \<Rightarrow> doc \<Rightarrow> 'v stores \<Rightarrow> response \<times> 'v stores" where
  "update_document document_id data s =
     ((200, Obj [(''message'', Str ''Document updated successfully'')]),
      s\<lparr>documents_col :=
          update_one (documents_col s) [(''document_id'', Str document_id)] data\<rparr>)"

definition delete_document :: "string \<Rightarrow> 'v stores \<Rightarrow> response \<times> 'v stores" where
  "delete_document document_id s =
     (let s1 = s\<lparr>documents_col :=
                  delete_one (documents_col s) [(''document_id'', Str document_id)]\<rparr>;
          s2 = s1\<lparr>stateboard_col :=
                   delete_many (stateboard_col s1) [(''document_id'', Str document_id)]\<rparr>;
          s3 = s2\<lparr>cbse_col :=
                   delete_many (cbse_col s2) [(''document_id'', Str document_id)]\<rparr>;
          s4 = s3\<lparr>index := index_delete (index s3) document_id\<rparr>
      in ((200, Obj [(''message'', Str ''Document deleted successfully'')]), s4))"

section \<open>Definitions used in the statements\<close>

text \<open>The windows \<^verbatim>\<open>text[st + i*step : st + i*step + width]\<close> whose start lies inside the
  text, from the offset \<open>st\<close> on: the closed form of what the loop of \<^verbatim>\<open>chunk_text\<close>
  appends.\<close>

definition windows_from :: "string \<Rightarrow> nat \<Rightarrow> nat \<Rightarrow> nat \<Rightarrow> string list" where
  "windows_from text width step st =
     map (\<lambda>i. take width (drop (st + i * step) text))
       [0..<(length text - st + step - 1) div step]"

text \<open>The chunk count as the specification gives it:
  \<^verbatim>\<open>ceil(max(len(T)-O, 0) / (C-O))\<close>.\<close>

definition spec_chunk_count :: "string \<Rightarrow> int \<Rightarrow> int \<Rightarrow> int" where
  "spec_chunk_count text chunk_size overlap =
     \<lceil>real_of_int (max (int (length text) - overlap) 0) / real_of_int (chunk_size - overlap)\<rceil>"

text \<open>The reconstruction of the specification: \<^verbatim>\<open>chunk[i][0 : C-O]\<close> of every chunk
  but the last, then the last chunk whole.\<close>

definition reconstruct :: "int \<Rightarrow> int \<Rightarrow> string list \<Rightarrow> string" where
  "reconstruct chunk_size overlap chunks =
     (if chunks = [] then []
      else concat (map (\<lambda>c. py_slice c 0 (chunk_size - overlap)) (butlast chunks))
             @ last chunks)"

section \<open>The segmenter\<close>

lemma py_slice_nonneg:
  "0 \<le> a \<Longrightarrow> 0 \<le> c \<Longrightarrow> py_slice xs a (a + c) = take (nat c) (drop (nat a) xs)"
  by (auto simp: py_slice_def slice_index_def Let_def min_def nat_add_distrib)

lemma count_step:
  assumes "0 < step" "st < L"
  shows "(L - st + step - 1) div step = Suc ((L - (st + step) + step - 1) div step)"
proof -
  have sh: "(a + step) div step = Suc (a div step)" for a
    using assms(1) by simp
  show ?thesis
  proof (cases "st + step \<le> L")
    case True
    then have "L - st + step - 1 = (L - (st + step) + step - 1) + step"
      using assms by linarith
    then show ?thesis by (simp only: sh)
  next
    case False
    then have a: "(L - (st + step) + step - 1) div step = 0"
      using assms by simp
    have c: "(L - st - 1) div step = 0"
      using False assms by simp
    have "L - st + step - 1 = (L - st - 1) + step"
      using assms by linarith
    then have "(L - st + step - 1) div step = Suc ((L - st - 1) div step)"
      by (simp only: sh)
    then show ?thesis by (simp only: a c)
  qed
qed

lemma windows_from_unfold:
  assumes "0 < step" "st < length text"
  shows "windows_from text width step st =
           take width (drop st text) # windows_from text width step (st + step)"
proof -
  let ?n = "(length text - (st + step) + step - 1) div step"
  let ?f = "\<lambda>i. take width (drop (st + i * step) text)"
  have n: "(length text - st + step - 1) div step = Suc ?n"
    using count_step [OF assms] .
  have "[0..<Suc ?n] = 0 # map Suc [0..<?n]"
    by (simp only: map_Suc_upt upt_conv_Cons [of 0 "Suc ?n"] zero_less_Suc if_True)
  then have "map ?f [0..<Suc ?n] = ?f 0 # map (\<lambda>i. ?f (Suc i)) [0..<?n]"
    by (simp only: list.map map_map o_def)
  then show ?thesis
    unfolding windows_from_def n by (simp add: add.assoc del: upt_Suc)
qed

lemma windows_from_done:
  "length text \<le> st \<Longrightarrow> 0 < step \<Longrightarrow> windows_from text width step st = []"
  by (simp add: windows_from_def)

lemma chunk_loop_closed:
  assumes "overlap < chunk_size" "0 \<le> overlap"
  shows "chunk_loop text chunk_size overlap (int st) chunks =
           Some (chunks @ windows_from text (nat chunk_size) (nat (chunk_size - overlap)) st)"
proof (induction "length text - st" arbitrary: st chunks rule: less_induct)
  case less
  let ?step = "nat (chunk_size - overlap)"
  have step: "0 < ?step" using assms by simp
  show ?case
  proof (cases "st < length text")
    case False
    then show ?thesis
      using step by (subst chunk_loop.simps) (simp add: windows_from_done)
  next
    case True
    have nxt: "int st + chunk_size - overlap = int (st + ?step)" using assms by simp
    have sl: "py_slice text (int st) (int st + chunk_size) = take (nat chunk_size) (drop st text)"
      using assms py_slice_nonneg [of "int st" chunk_size "text"] by simp
    have "length text - (st + ?step) < length text - st" using True step by simp
    from less [OF this]
    have ih: "chunk_loop text chunk_size overlap (int (st + ?step)) cs =
              Some (cs @ windows_from text (nat chunk_size) ?step (st + ?step))" for cs .
    have "chunk_loop text chunk_size overlap (int st) chunks =
          chunk_loop text chunk_size overlap (int (st + ?step))
            (chunks @ [take (nat chunk_size) (drop st text)])"
      using True by (subst chunk_loop.simps) (simp only: Let_def nxt sl of_nat_less_iff if_True)
    also have "\<dots> = Some ((chunks @ [take (nat chunk_size) (drop st text)]) @
                 windows_from text (nat chunk_size) ?step (st + ?step))"
      by (rule ih)
    also have "\<dots> = Some (chunks @ windows_from text (nat chunk_size) ?step st)"
      by (simp add: windows_from_unfold [OF step True])
    finally show ?thesis .
  qed
qed

lemma chunk_text_closed:
  assumes "overlap < chunk_size" "0 \<le> overlap"
  shows "chunk_text text chunk_size overlap =
           Some (windows_from text (nat chunk_size) (nat (chunk_size - overlap)) 0)"
  using chunk_loop_closed [OF assms, of "text" 0 "[]"] by (simp add: chunk_text_def)

lemma length_windows_from:
  "length (windows_from text width step st) = (length text - st + step - 1) div step"
  by (simp add: windows_from_def)

lemma nth_windows_from:
  "i < length (windows_from text width step st) \<Longrightarrow>
     windows_from text width step st ! i = take width (drop (st + i * step) text)"
  by (simp add: windows_from_def)

lemma ceil_div_bounds:
  fixes L step :: nat
  assumes "0 < step"
  defines "n \<equiv> (L + step - 1) div step"
  shows "L \<le> n * step" and "0 < L \<Longrightarrow> (n - 1) * step < L" and "L = 0 \<Longrightarrow> n = 0"
    and "0 < L \<Longrightarrow> 0 < n"
proof -
  have m: "(L + step - 1) mod step < step" using assms by simp
  have d: "n * step + (L + step - 1) mod step = L + step - 1"
    unfolding n_def by simp
  show "L \<le> n * step" using m d by linarith
  show "L = 0 \<Longrightarrow> n = 0" using assms by (simp add: n_def)
  show pos: "0 < n" if "0 < L"
  proof -
    have "step \<le> L + step - 1" using that by simp
    then have "1 \<le> (L + step - 1) div step"
      using assms(1) by (simp add: Suc_le_eq div_greater_zero_iff)
    then show ?thesis by (simp add: n_def)
  qed
  show "(n - 1) * step < L" if "0 < L"
  proof -
    have "(n - 1) * step + step = n * step" using pos [OF that]
      by (simp add: algebra_simps mult_eq_if)
    then show ?thesis using d that by linarith
  qed
qed

lemma ceiling_nat_div:
  fixes L step :: nat
  assumes "0 < step"
  shows "\<lceil>real L / real step\<rceil> = int ((L + step - 1) div step)"
proof (cases "L = 0")
  case True
  then show ?thesis using assms by simp
next
  case False
  let ?n = "(L + step - 1) div step"
  have a: "L \<le> ?n * step" and b: "(?n - 1) * step < L" and c: "0 < ?n"
    using ceil_div_bounds [OF assms, of L] False by auto
  have "real L \<le> real ?n * real step"
    using a by (metis of_nat_le_iff of_nat_mult)
  then have up: "real L / real step \<le> real ?n"
    using assms by (simp add: field_simps)
  have "real (?n - 1) * real step < real L"
    using b by (metis of_nat_less_iff of_nat_mult)
  then have "real (?n - 1) < real L / real step"
    using assms by (simp add: field_simps)
  then have lo: "real ?n - 1 < real L / real step"
    using c by (simp add: of_nat_diff)
  show ?thesis
    by (rule ceiling_unique) (use up lo in simp_all)
qed

lemma concat_steps:
  "0 < step \<Longrightarrow> step \<le> width \<Longrightarrow>
     concat (map (\<lambda>i. take step (take width (drop (i * step) text))) [0..<m]) = take (m * step) text"
proof (induction m)
  case 0
  then show ?case by simp
next
  case (Suc m)
  have "take (m * step) text @ take step (drop (m * step) text) = take (m * step + step) text"
    by (simp add: take_add)
  with Suc show ?case by (simp add: min_absorb1 add.commute)
qed


lemma windows_count:
  assumes "0 < step"
  shows "int (length (windows_from text width step 0)) = \<lceil>real (length text) / real step\<rceil>"
  by (simp add: length_windows_from ceiling_nat_div [OF assms])

lemma windows_short:
  assumes "0 < step" "step \<le> width" "text \<noteq> []" "length text \<le> step"
  shows "windows_from text width step 0 = [text]"
proof -
  have pos: "0 < length text" using assms(3) by simp
  have "length text - 1 < step" using assms(4) pos by linarith
  then have z: "(length text - 1) div step = 0" by (rule div_less)
  have sh: "(a + step) div step = Suc (a div step)" for a
    using assms(1) by simp
  have e: "length text + step - 1 = (length text - 1) + step" using pos by linarith
  have n: "(length text + step - 1) div step = Suc 0"
    unfolding e sh z ..
  have n': "(length text + step - Suc 0) div step = Suc 0" using n by simp
  have "windows_from text width step 0 = [take width text]"
    unfolding windows_from_def by (simp add: n')
  then show ?thesis using assms(2,4) by simp
qed

lemma windows_start_inside:
  assumes "0 < step" "i < length (windows_from text width step 0)"
  shows "i * step < length text"
proof -
  let ?n = "(length text + step - 1) div step"
  have i: "i < ?n" using assms(2) by (simp add: length_windows_from)
  then have pos: "0 < length text"
    using ceil_div_bounds(3) [OF assms(1), of "length text"] by (cases "length text") auto
  have "i \<le> ?n - 1" using i by simp
  then have "i * step \<le> (?n - 1) * step" by (rule mult_le_mono1)
  also have "\<dots> < length text" using ceil_div_bounds(2) [OF assms(1) pos] .
  finally show ?thesis .
qed

lemma windows_reconstruct:
  assumes "0 < step" "step \<le> width" "text \<noteq> []"
  shows "concat (map (take step) (butlast (windows_from text width step 0)))
           @ last (windows_from text width step 0) = text"
proof -
  have pos: "0 < length text" using assms(3) by simp
  have "0 < (length text + step - 1) div step"
    using ceil_div_bounds(4) [OF assms(1) pos] .
  then obtain m where m: "(length text + step - 1) div step = Suc m"
    using gr0_implies_Suc by blast
  have cover: "length text \<le> Suc m * step"
    using ceil_div_bounds(1) [OF assms(1), of "length text"] by (simp only: m)
  have ws: "windows_from text width step 0 =
      map (\<lambda>i. take width (drop (i * step) text)) [0..<m] @ [take width (drop (m * step) text)]"
  proof -
    have "windows_from text width step 0 =
          map (\<lambda>i. take width (drop (i * step) text)) [0..<Suc m]"
      unfolding windows_from_def using m by simp
    then show ?thesis by simp
  qed
  have "length text - m * step \<le> width" using cover assms(2) by simp
  then have lst: "take width (drop (m * step) text) = drop (m * step) text"
    by simp
  have bl: "butlast (windows_from text width step 0) =
            map (\<lambda>i. take width (drop (i * step) text)) [0..<m]"
    unfolding ws by simp
  have la: "last (windows_from text width step 0) = drop (m * step) text"
    unfolding ws by (simp add: lst)
  have "concat (map (take step) (butlast (windows_from text width step 0))) =
        concat (map (\<lambda>i. take step (take width (drop (i * step) text))) [0..<m])"
    unfolding bl by (simp add: o_def)
  also have "\<dots> = take (m * step) text"
    by (rule concat_steps [OF assms(1,2)])
  finally show ?thesis unfolding la by simp
qed

lemma windows_nonempty:
  assumes "0 < step" "0 < width" "c \<in> set (windows_from text width step 0)"
  shows "c \<noteq> [] \<and> length c \<le> width \<and> sublist c text"
proof -
  from assms(3) obtain i where i: "i < length (windows_from text width step 0)"
    and c: "c = windows_from text width step 0 ! i"
    by (auto simp: in_set_conv_nth)
  have ci: "c = take width (drop (i * step) text)"
    using c nth_windows_from [OF i] by simp
  have inside: "i * step < length text" using windows_start_inside [OF assms(1) i] .
  have "c \<noteq> []" using inside assms(2) by (simp add: ci)
  moreover have "length c \<le> width" by (simp add: ci)
  moreover have "sublist c text"
    unfolding ci by (meson sublist_order.order_trans sublist_take sublist_drop)
  ultimately show ?thesis by simp
qed

lemma chunk_loop_diverges:
  assumes run: "chunk_loop text chunk_size overlap start chunks = Some y"
  shows "\<not> (chunk_size \<le> overlap \<and> start \<le> 0 \<and> text \<noteq> [])"
proof (rule chunk_loop.raw_induct
    [where P = "\<lambda>tx csize ovl st cs res. \<not> (csize \<le> ovl \<and> st \<le> 0 \<and> tx \<noteq> [])", OF _ run])
  fix f :: "string \<Rightarrow> int \<Rightarrow> int \<Rightarrow> int \<Rightarrow> string list \<Rightarrow> string list option"
  fix tx csize ovl st cs res
  assume ih: "\<And>tx csize ovl st cs res. f tx csize ovl st cs = Some res \<Longrightarrow>
                \<not> (csize \<le> ovl \<and> st \<le> 0 \<and> tx \<noteq> [])"
  assume body: "(if st < int (length tx)
      then let end_pos = st + csize
           in f tx csize ovl (end_pos - ovl) (cs @ [py_slice tx st end_pos])
      else Some cs) = Some res"
  show "\<not> (csize \<le> ovl \<and> st \<le> 0 \<and> tx \<noteq> [])"
  proof
    assume h: "csize \<le> ovl \<and> st \<le> 0 \<and> tx \<noteq> []"
    then have lt: "st < int (length tx)" by (cases tx) auto
    from body lt
    have "f tx csize ovl (st + csize - ovl) (cs @ [py_slice tx st (st + csize)]) = Some res"
      by (simp add: Let_def)
    from ih [OF this] h show False by simp
  qed
qed

lemma chunk_text_diverges:
  assumes "chunk_size \<le> overlap" "text \<noteq> []"
  shows "chunk_text text chunk_size overlap = None"
proof (cases "chunk_text text chunk_size overlap")
  case None
  then show ?thesis .
next
  case (Some y)
  then have "chunk_loop text chunk_size overlap 0 [] = Some y" by (simp add: chunk_text_def)
  from chunk_loop_diverges [OF this] assms show ?thesis by simp
qed

lemma chunk_text_empty: "chunk_text [] chunk_size overlap = Some []"
  unfolding chunk_text_def by (subst chunk_loop.simps) simp

section \<open>Claims about the segmenter\<close>

text \<open>
  Claim C7. For every text and every \<open>chunk_size > overlap \<ge> 0\<close>, the call
  \<^verbatim>\<open>chunk_text(text, chunk_size, overlap)\<close> returns, and what it returns is a list of
  chunks.
\<close>

theorem chunk_text_terminates:
  "0 \<le> overlap \<Longrightarrow> overlap < chunk_size \<Longrightarrow>
     \<exists>chunks. chunk_text text chunk_size overlap = Some chunks"
  by (simp add: chunk_text_closed)

theorem chunk_text_terminates_witness:
  "(0::int) \<le> 1 \<and> (1::int) < 2 \<and> (\<exists>chunks. chunk_text ''abcde'' 2 1 = Some chunks)"
  using chunk_text_terminates [of 1 2 "''abcde''"] by simp

text \<open>
  Claim C3, as the code has it. For \<open>chunk_size > overlap \<ge> 0\<close> the call returns exactly
  \<open>\<lceil>len(T) / (chunk_size - overlap)\<rceil>\<close> chunks: the loop runs once for every start
  \<open>i * (chunk_size - overlap)\<close> below \<open>len(T)\<close>, also when the chunk at that start lies wholly
  inside the overlap of the one before. The empty text gives no chunk, and a non-empty text
  of at most \<open>chunk_size - overlap\<close> characters gives the single chunk equal to the text.
  The count \<open>\<lceil>max(len(T) - overlap, 0) / (chunk_size - overlap)\<rceil>\<close> of the specification is
  not what the code returns, and a text shorter than \<open>chunk_size\<close> but longer than
  \<open>chunk_size - overlap\<close> gives two chunks: see the counterexample.
\<close>

theorem chunk_text_count:
  assumes "0 \<le> overlap" "overlap < chunk_size"
  shows "\<exists>chunks. chunk_text text chunk_size overlap = Some chunks
           \<and> int (length chunks) = \<lceil>real (length text) / real_of_int (chunk_size - overlap)\<rceil>
           \<and> (text = [] \<longrightarrow> chunks = [])
           \<and> (text \<noteq> [] \<and> int (length text) \<le> chunk_size - overlap \<longrightarrow> chunks = [text])"
proof -
  let ?step = "nat (chunk_size - overlap)"
  let ?ws = "windows_from text (nat chunk_size) ?step 0"
  have step: "0 < ?step" and le: "?step \<le> nat chunk_size" using assms by simp_all
  have run: "chunk_text text chunk_size overlap = Some ?ws"
    using chunk_text_closed [OF assms(2,1)] .
  have r: "real_of_int (chunk_size - overlap) = real ?step" using assms by simp
  have cnt: "int (length ?ws) = \<lceil>real (length text) / real_of_int (chunk_size - overlap)\<rceil>"
    unfolding r by (rule windows_count [OF step])
  have emp: "text = [] \<Longrightarrow> ?ws = []"
    using step by (simp add: windows_from_done)
  have short: "?ws = [text]"
    if h: "text \<noteq> [] \<and> int (length text) \<le> chunk_size - overlap"
  proof -
    have "length text \<le> ?step" using h by linarith
    with h show ?thesis using windows_short [OF step le, of "text"] by blast
  qed
  show ?thesis using run cnt emp short by blast
qed

theorem chunk_text_count_witness:
  "\<exists>chunks. chunk_text ''abcde'' 3 1 = Some chunks \<and> int (length chunks) = 3"
proof -
  have "\<lceil>real (length ''abcde'') / real_of_int (3 - 1)\<rceil> = 3" by simp
  then show ?thesis using chunk_text_count [of 1 3 "''abcde''"] by auto
qed

theorem chunk_count_counterexample:
  "chunk_text ''abc'' 2 1 = Some [''ab'', ''bc'', ''c''] \<and> spec_chunk_count ''abc'' 2 1 = 2
   \<and> chunk_text ''ab'' 3 2 = Some [''ab'', ''b'']"
  by (simp add: chunk_text_def chunk_loop.simps py_slice_def slice_index_def spec_chunk_count_def)

text \<open>
  Claim C4, as the code has it. \<^verbatim>\<open>chunk_text\<close> checks nothing: with
  \<open>overlap \<ge> chunk_size\<close> the empty text returns the empty list, and on a non-empty text the
  loop never ends (\<open>start\<close> never grows, so the loop condition stays true). No error is
  raised in either case.
\<close>

theorem chunk_text_unvalidated:
  "chunk_size \<le> overlap \<Longrightarrow>
     chunk_text text chunk_size overlap = (if text = [] then Some [] else None)"
  by (simp add: chunk_text_empty chunk_text_diverges)

theorem chunk_text_unvalidated_witness:
  "(100::int) \<le> 500 \<and> chunk_text ''abc'' 100 500 = None \<and> chunk_text [] 100 500 = Some []"
  using chunk_text_unvalidated [of 100 500 "''abc''"] chunk_text_unvalidated [of 100 500 "[]"]
  by simp

theorem invalid_configuration_counterexample:
  "chunk_text [] 100 500 = Some [] \<and> chunk_text ''abc'' 100 500 = None"
  using chunk_text_empty [of 100 500] chunk_text_diverges [of 100 500 "''abc''"] by simp

text \<open>
  Claim C6. For \<open>chunk_size > overlap \<ge> 0\<close>, chunk \<open>i\<close> is
  \<^verbatim>\<open>text[i*(C-O) : i*(C-O)+C]\<close>, and the first \<open>C-O\<close> characters of every chunk but the
  last, followed by the last chunk whole, give the text back.
\<close>

theorem chunk_text_reconstructs:
  assumes "0 \<le> overlap" "overlap < chunk_size"
  shows "\<exists>chunks. chunk_text text chunk_size overlap = Some chunks
           \<and> (\<forall>i < length chunks.
                 chunks ! i = py_slice text (int i * (chunk_size - overlap))
                                (int i * (chunk_size - overlap) + chunk_size))
           \<and> reconstruct chunk_size overlap chunks = text"
proof -
  let ?step = "nat (chunk_size - overlap)"
  let ?ws = "windows_from text (nat chunk_size) ?step 0"
  have step: "0 < ?step" and le: "?step \<le> nat chunk_size" using assms by simp_all
  have run: "chunk_text text chunk_size overlap = Some ?ws"
    using chunk_text_closed [OF assms(2,1)] .
  have nth: "?ws ! i = py_slice text (int i * (chunk_size - overlap))
                        (int i * (chunk_size - overlap) + chunk_size)"
    if "i < length ?ws" for i
  proof -
    have a: "0 \<le> int i * (chunk_size - overlap)" using assms by simp
    have b: "nat (int i * (chunk_size - overlap)) = i * ?step"
      using assms by (simp add: nat_mult_distrib)
    have "py_slice text (int i * (chunk_size - overlap))
            (int i * (chunk_size - overlap) + chunk_size) =
          take (nat chunk_size) (drop (i * ?step) text)"
      using py_slice_nonneg [OF a, of chunk_size "text"] assms b by simp
    then show ?thesis using nth_windows_from [OF that] by simp
  qed
  have pre: "py_slice c 0 (chunk_size - overlap) = take ?step c" for c :: string
    using py_slice_nonneg [of 0 "chunk_size - overlap" c] assms by simp
  have rec: "reconstruct chunk_size overlap ?ws = text"
  proof (cases "text = []")
    case True
    then have "?ws = []" using step by (simp add: windows_from_done)
    then show ?thesis using True by (simp add: reconstruct_def)
  next
    case False
    then have "0 < length text" by simp
    from windows_from_unfold [OF step this, of "nat chunk_size"]
    have ne: "?ws \<noteq> []" by simp
    show ?thesis
      using windows_reconstruct [OF step le False] ne
      by (simp add: reconstruct_def pre)
  qed
  show ?thesis using run nth rec by blast
qed

theorem chunk_text_reconstructs_witness:
  "(0::int) \<le> 1 \<and> (1::int) < 4 \<and>
   (\<exists>chunks. chunk_text ''abcdefgh'' 4 1 = Some chunks
      \<and> reconstruct 4 1 chunks = ''abcdefgh'')"
  using chunk_text_reconstructs [of 1 4 "''abcdefgh''"] by auto

end
